theory Spec2Isabelle
  imports Complex_Main "HOL-Library.Log_Nat"
begin

section \<open>JavaScript numbers\<close>

text \<open>
  A JavaScript \<^verbatim>\<open>number\<close> is an IEEE 754 binary64 value. The model keeps the three
  special values apart and represents a finite value by the rational it denotes. The two
  zeros are identified: \<^verbatim>\<open>-0\<close> behaves like \<^verbatim>\<open>+0\<close> under \<^verbatim>\<open>isNaN\<close>, \<^verbatim>\<open><=\<close>,
  \<^verbatim>\<open>+\<close> and \<^verbatim>\<open>-\<close> as far as this component can observe, and the component never
  divides by a zero.
\<close>

datatype number = NaN | NegInfinity | Finite rat | Infinity

text \<open>\<open>ilog2 q\<close> is \<open>\<lfloor>log\<^sub>2 q\<rfloor>\<close> for a positive rational \<open>q\<close>, computed from bit lengths.\<close>

definition ilog2 :: "rat \<Rightarrow> int" where
  "ilog2 q = (let (a, b) = quotient_of q; k = bitlen a - bitlen b
              in if 2 powi k \<le> q then k else k - 1)"

text \<open>Rounding a rational to the nearest integer, ties to the even one.\<close>

definition rne :: "rat \<Rightarrow> int" where
  "rne y = (let f = \<lfloor>y\<rfloor>; d = y - of_int f
            in if d < 1 / 2 then f
               else if 1 / 2 < d then f + 1
               else if even f then f else f + 1)"

text \<open>
  The binade of \<open>q\<close> (clamped below at the subnormal exponent \<open>-1022\<close>) and the spacing
  of binary64 values in it: 53 significant bits.
\<close>

definition expo :: "rat \<Rightarrow> int" where
  "expo q = max (ilog2 \<bar>q\<bar>) (- 1022)"

definition ulp :: "rat \<Rightarrow> rat" where
  "ulp q = 2 powi (expo q - 52)"

definition r64 :: "rat \<Rightarrow> rat" where
  "r64 q = of_int (rne (q / ulp q)) * ulp q"

text \<open>
  Round to nearest, ties to even, as every JavaScript arithmetic operation and every
  numeric literal conversion does; a result of magnitude \<open>2\<^sup>1\<^sup>0\<^sup>2\<^sup>4\<close> is an infinity.
\<close>

definition round64 :: "rat \<Rightarrow> number" where
  "round64 q =
     (let r = r64 q
      in if 2 ^ 1024 \<le> r then Infinity
         else if r \<le> - (2 ^ 1024) then NegInfinity
         else Finite r)"

definition isNaN :: "number \<Rightarrow> bool" where
  "isNaN x = (x = NaN)"

text \<open>The relational operators \<^verbatim>\<open><=\<close> and \<^verbatim>\<open><\<close>: false whenever an operand is NaN.\<close>

fun num_le :: "number \<Rightarrow> number \<Rightarrow> bool" where
  "num_le NaN y = False"
| "num_le x NaN = False"
| "num_le NegInfinity y = True"
| "num_le x Infinity = True"
| "num_le (Finite a) (Finite b) = (a \<le> b)"
| "num_le x y = False"

fun num_lt :: "number \<Rightarrow> number \<Rightarrow> bool" where
  "num_lt NaN y = False"
| "num_lt x NaN = False"
| "num_lt (Finite a) (Finite b) = (a < b)"
| "num_lt x NegInfinity = False"
| "num_lt Infinity y = False"
| "num_lt x y = True"

fun num_neg :: "number \<Rightarrow> number" where
  "num_neg NaN = NaN"
| "num_neg NegInfinity = Infinity"
| "num_neg Infinity = NegInfinity"
| "num_neg (Finite a) = Finite (- a)"

text \<open>The operators \<^verbatim>\<open>+\<close>, \<^verbatim>\<open>-\<close>, \<^verbatim>\<open>*\<close> and \<^verbatim>\<open>/\<close> on numbers.\<close>

fun num_add :: "number \<Rightarrow> number \<Rightarrow> number" where
  "num_add NaN y = NaN"
| "num_add x NaN = NaN"
| "num_add (Finite a) (Finite b) = round64 (a + b)"
| "num_add Infinity NegInfinity = NaN"
| "num_add NegInfinity Infinity = NaN"
| "num_add Infinity y = Infinity"
| "num_add NegInfinity y = NegInfinity"
| "num_add (Finite a) y = y"


fun num_mul :: "number \<Rightarrow> number \<Rightarrow> number" where
  "num_mul NaN y = NaN"
| "num_mul x NaN = NaN"
| "num_mul (Finite a) (Finite b) = round64 (a * b)"
| "num_mul (Finite a) y = (if a = 0 then NaN else if 0 < a then y else num_neg y)"
| "num_mul x (Finite b) = (if b = 0 then NaN else if 0 < b then x else num_neg x)"
| "num_mul x y = (if x = y then Infinity else NegInfinity)"

fun num_div :: "number \<Rightarrow> number \<Rightarrow> number" where
  "num_div NaN y = NaN"
| "num_div x NaN = NaN"
| "num_div (Finite a) (Finite b) =
     (if b = 0 then (if a = 0 then NaN else if 0 < a then Infinity else NegInfinity)
      else round64 (a / b))"
| "num_div (Finite a) y = Finite 0"
| "num_div x (Finite b) = (if 0 \<le> b then x else num_neg x)"
| "num_div x y = NaN"


definition Math_min :: "number \<Rightarrow> number \<Rightarrow> number" where
  "Math_min x y = (if isNaN x \<or> isNaN y then NaN else if num_le x y then x else y)"

section \<open>Strings and conversions\<close>

text \<open>
  A JavaScript string is modelled by a \<^typ>\<open>string\<close>, each character standing for the
  code unit of the same number. \<open>isWhiteSpace\<close> lists the white space and line terminator
  code units below 256 that \<^verbatim>\<open>parseFloat\<close> skips at the start of its argument.
\<close>

definition isWhiteSpace :: "char \<Rightarrow> bool" where
  "isWhiteSpace c = (of_char c \<in> {9, 10, 11, 12, 13, 32, 160 :: nat})"

definition isDigit :: "char \<Rightarrow> bool" where
  "isDigit c = (48 \<le> (of_char c :: nat) \<and> (of_char c :: nat) \<le> 57)"

text \<open>The mathematical value of a run of decimal digits.\<close>

definition digitsValue :: "string \<Rightarrow> nat" where
  "digitsValue ds = foldl (\<lambda>n c. 10 * n + (of_char c - 48)) 0 ds"

text \<open>
  The optional exponent part of a decimal literal: \<^verbatim>\<open>e\<close> or \<^verbatim>\<open>E\<close>, an optional sign
  and at least one digit. Anything else contributes no exponent, because
  \<^verbatim>\<open>parseFloat\<close> reads the longest prefix that is a literal.
\<close>

definition exponentPart :: "string \<Rightarrow> int" where
  "exponentPart s =
     (case s of
        [] \<Rightarrow> 0
      | c # r \<Rightarrow>
          if c = CHR ''e'' \<or> c = CHR ''E'' then
            (let neg = (r \<noteq> [] \<and> hd r = CHR ''-'');
                 d = (if r \<noteq> [] \<and> (hd r = CHR ''-'' \<or> hd r = CHR ''+'') then tl r else r);
                 ds = takeWhile isDigit d
             in if ds = [] then 0
                else if neg then - int (digitsValue ds) else int (digitsValue ds))
          else 0)"

text \<open>
  The longest prefix of \<open>u\<close> that is an unsigned decimal literal (\<^verbatim>\<open>Infinity\<close>,
  \<^verbatim>\<open>digits\<close>, \<^verbatim>\<open>digits.\<close>, \<^verbatim>\<open>digits.digits\<close> or \<^verbatim>\<open>.digits\<close>, each of the last four with
  an optional exponent part), converted to a number; NaN when there is no such prefix.
\<close>

definition strUnsignedDecimalLiteral :: "string \<Rightarrow> number" where
  "strUnsignedDecimalLiteral u =
     (if take 8 u = ''Infinity'' then Infinity
      else
        let ip = takeWhile isDigit u;
            r1 = dropWhile isDigit u;
            hasDot = (r1 \<noteq> [] \<and> hd r1 = CHR ''.'');
            fp = (if hasDot then takeWhile isDigit (tl r1) else []);
            r2 = (if hasDot then dropWhile isDigit (tl r1) else r1)
        in if ip = [] \<and> fp = [] then NaN
           else round64 ((of_nat (digitsValue ip) + of_nat (digitsValue fp) / 10 ^ length fp)
                          * 10 powi exponentPart r2))"

definition parseFloat :: "string \<Rightarrow> number" where
  "parseFloat s =
     (let t = dropWhile isWhiteSpace s
      in if t \<noteq> [] \<and> hd t = CHR ''-'' then num_neg (strUnsignedDecimalLiteral (tl t))
         else if t \<noteq> [] \<and> hd t = CHR ''+'' then strUnsignedDecimalLiteral (tl t)
         else strUnsignedDecimalLiteral t)"

text \<open>
  \<^verbatim>\<open>Date.now()\<close> is an integral number of milliseconds, far below \<open>10\<^sup>2\<^sup>1\<close> in
  magnitude, so its \<^verbatim>\<open>toString()\<close> is the plain decimal numeral.
\<close>

definition digitChar :: "nat \<Rightarrow> char" where
  "digitChar d = ''0123456789'' ! d"

fun digitsOf :: "nat \<Rightarrow> string" where
  "digitsOf n = (if n < 10 then [digitChar n] else digitsOf (n div 10) @ [digitChar (n mod 10)])"

declare digitsOf.simps [simp del]

definition toString :: "int \<Rightarrow> string" where
  "toString n = (if n < 0 then CHR ''-'' # digitsOf (nat (- n)) else digitsOf (nat n))"

section \<open>The component\<close>

record Expense =
  id_str :: string
  name :: string
  amount :: number
  category :: string
  date :: int

definition categories :: "string list" where
  "categories = [''Food'', ''Transportation'', ''Entertainment'', ''Education'', ''Healthcare'',
                 ''Shopping'', ''Other'']"

text \<open>The state held by the hooks of \<^verbatim>\<open>StudentFinanceManager\<close>.\<close>

record state =
  expenses :: "Expense list"
  expenseName :: string
  expenseAmount :: string
  expenseCategory :: string

definition initialState :: state where
  "initialState = \<lparr>expenses = [], expenseName = [], expenseAmount = [], expenseCategory = []\<rparr>"

definition monthlyBudget :: number where
  "monthlyBudget = Finite 5000"

text \<open>
  The toast that \<^verbatim>\<open>addExpense\<close> shows, named by its title. The two destructive toasts are
  the validation failures; the third carries the name and the amount its text is built from.
\<close>

datatype toast = MissingInformation | InvalidAmount | ExpenseAdded string number

definition totalSpent :: "Expense list \<Rightarrow> number" where
  "totalSpent es = foldl (\<lambda>sum expense. num_add sum (amount expense)) (Finite 0) es"


text \<open>
  \<open>addExpense now today s\<close> is one call of \<^verbatim>\<open>addExpense\<close> in the render whose state is
  \<open>s\<close>; \<open>now\<close> is what \<^verbatim>\<open>Date.now()\<close> returns and \<open>today\<close> the time value of
  \<^verbatim>\<open>new Date()\<close>. It yields the toast shown and the state of the next render. A
  string is falsy exactly when it is empty.
\<close>

definition addExpense :: "int \<Rightarrow> int \<Rightarrow> state \<Rightarrow> toast \<times> state" where
  "addExpense now today s =
     (if expenseName s = [] \<or> expenseAmount s = [] \<or> expenseCategory s = []
      then (MissingInformation, s)
      else
        let amt = parseFloat (expenseAmount s)
        in if isNaN amt \<or> num_le amt (Finite 0) then (InvalidAmount, s)
           else
             let newExpense = \<lparr>id_str = toString now, name = expenseName s, amount = amt,
                                category = expenseCategory s, date = today\<rparr>
             in (ExpenseAdded (expenseName s) amt,
                 s\<lparr>expenses := expenses s @ [newExpense], expenseName := [],
                    expenseAmount := [], expenseCategory := []\<rparr>))"


definition usageRatio :: "Expense list \<Rightarrow> number" where
  "usageRatio es = num_div (totalSpent es) monthlyBudget"


definition progressBarWidth :: "Expense list \<Rightarrow> number" where
  "progressBarWidth es = Math_min (Finite 100) (num_mul (usageRatio es) (Finite 100))"

text \<open>
  The events of the form: a change of a field calls the matching setter, a click on the
  button calls \<^verbatim>\<open>addExpense\<close> with the clock readings of that moment. A setter may
  receive any string here, which covers whatever the number input and the select hand over.
\<close>

datatype event =
    SetExpenseName string
  | SetExpenseAmount string
  | SetExpenseCategory string
  | ClickAdd int int

fun step :: "state \<Rightarrow> event \<Rightarrow> state" where
  "step s (SetExpenseName v) = s\<lparr>expenseName := v\<rparr>"
| "step s (SetExpenseAmount v) = s\<lparr>expenseAmount := v\<rparr>"
| "step s (SetExpenseCategory v) = s\<lparr>expenseCategory := v\<rparr>"
| "step s (ClickAdd now today) = snd (addExpense now today s)"

definition run :: "event list \<Rightarrow> state" where
  "run evs = foldl step initialState evs"

text \<open>Filling in the three fields and clicking the button at clock reading \<open>t\<close>.\<close>

definition submit :: "string \<Rightarrow> string \<Rightarrow> string \<Rightarrow> int \<Rightarrow> event list" where
  "submit n a c t = [SetExpenseName n, SetExpenseAmount a, SetExpenseCategory c, ClickAdd t t]"

text \<open>The readings of \<^verbatim>\<open>Date.now()\<close> at the clicks of a run, in order.\<close>

fun clicks :: "event list \<Rightarrow> int list" where
  "clicks [] = []"
| "clicks (ClickAdd now today # evs) = now # clicks evs"
| "clicks (ev # evs) = clicks evs"

section \<open>Well-formed numbers\<close>

text \<open>
  \<open>Finite r\<close> stands for a JavaScript number only when \<open>r\<close> is a binary64 value, that is,
  when rounding leaves it alone. \<open>positive_number\<close> describes the amounts that pass the
  check of \<^verbatim>\<open>addExpense\<close>, \<open>nonneg_number\<close> the sums of such amounts.
\<close>

definition is_double :: "rat \<Rightarrow> bool" where
  "is_double r = (round64 r = Finite r)"

definition nonneg_number :: "number \<Rightarrow> bool" where
  "nonneg_number x = (case x of Finite r \<Rightarrow> 0 \<le> r \<and> is_double r | Infinity \<Rightarrow> True | _ \<Rightarrow> False)"

definition positive_number :: "number \<Rightarrow> bool" where
  "positive_number x = (case x of Finite r \<Rightarrow> 0 < r \<and> is_double r | Infinity \<Rightarrow> True | _ \<Rightarrow> False)"

text \<open>The invariant of the list of expenses: what the checks of \<^verbatim>\<open>addExpense\<close> let in.\<close>

definition ledger_ok :: "Expense list \<Rightarrow> bool" where
  "ledger_ok es = (\<forall>e \<in> set es. positive_number (amount e) \<and> name e \<noteq> [] \<and> category e \<noteq> [])"

text \<open>
  The sum of the amounts in exact arithmetic, as opposed to the rounded sum that
  \<open>totalSpent\<close> computes; an amount that is not finite counts as zero here.
\<close>

definition arithmeticSum :: "Expense list \<Rightarrow> rat" where
  "arithmeticSum es = sum_list (map (\<lambda>e. case amount e of Finite r \<Rightarrow> r | _ \<Rightarrow> 0) es)"

text \<open>An amount that is a whole number, zero or more.\<close>

definition whole_amount :: "number \<Rightarrow> bool" where
  "whole_amount x = (case x of Finite r \<Rightarrow> 0 \<le> r \<and> r = of_int \<lfloor>r\<rfloor> | _ \<Rightarrow> False)"

section \<open>Properties of rounding\<close>

subsection \<open>Powers of two and the binade\<close>

lemma pow2_less_iff: "(2::rat) powi m < 2 powi n \<longleftrightarrow> m < n"
proof
  assume less: "(2::rat) powi m < 2 powi n"
  show "m < n"
  proof (rule ccontr)
    assume "\<not> m < n"
    then have "n \<le> m" by simp
    then have "(2::rat) powi n \<le> 2 powi m" by (intro power_int_increasing) simp_all
    with less show False by simp
  qed
next
  assume "m < n"
  then show "(2::rat) powi m < 2 powi n" by (intro power_int_strict_increasing) simp_all
qed

lemma pow2_le_iff: "(2::rat) powi m \<le> 2 powi n \<longleftrightarrow> m \<le> n"
  using pow2_less_iff[of n m] by (simp add: not_less[symmetric])

lemma pow2_int: "0 \<le> d \<Longrightarrow> (2::rat) powi d = of_int (2 ^ nat d)"
  by (simp add: power_int_def)

lemma pow2_split:
  assumes "e \<le> k"
  shows "(2::rat) powi k = of_int (2 ^ nat (k - e)) * 2 powi e"
proof -
  have "(2::rat) powi k = 2 powi (k - e) * 2 powi e" by (simp add: power_int_add[symmetric])
  also have "(2::rat) powi (k - e) = of_int (2 ^ nat (k - e))" using assms by (intro pow2_int) simp
  finally show ?thesis .
qed

lemma bitlen_powi_bounds:
  assumes "0 < a"
  shows "(2::rat) powi (bitlen a - 1) \<le> of_int a" and "of_int a < (2::rat) powi (bitlen a)"
proof -
  from bitlen_bounds[OF assms]
  have lo: "2 ^ nat (bitlen a - 1) \<le> a" and hi: "a < 2 ^ nat (bitlen a)"
    by auto
  have b1: "1 \<le> bitlen a"
    using assms bitlen_eq_zero_iff[of a] bitlen_nonneg[of a] by linarith
  have "(of_int (2 ^ nat (bitlen a - 1)) :: rat) \<le> of_int a"
    using lo by (simp only: of_int_le_iff)
  then show "(2::rat) powi (bitlen a - 1) \<le> of_int a"
    using b1 by (simp add: power_int_def)
  have "(of_int a :: rat) < of_int (2 ^ nat (bitlen a))"
    using hi by (simp only: of_int_less_iff)
  then show "of_int a < (2::rat) powi (bitlen a)"
    using b1 by (simp add: power_int_def)
qed

lemma ilog2_bounds:
  assumes "0 < q"
  shows "2 powi (ilog2 q) \<le> q \<and> q < 2 powi (ilog2 q + 1)"
proof -
  obtain a b where ab: "quotient_of q = (a, b)" by (cases "quotient_of q")
  have bpos: "0 < b" using ab quotient_of_denom_pos by blast
  have q: "q = of_int a / of_int b" using ab quotient_of_div by blast
  have apos: "0 < a" using assms bpos q by (simp add: zero_less_divide_iff)
  define k where "k = bitlen a - bitlen b"
  have bq: "(0::rat) < of_int b" using bpos by simp
  note A = bitlen_powi_bounds[OF apos] and B = bitlen_powi_bounds[OF bpos]
  have up: "q < 2 powi (k + 1)"
  proof -
    have "of_int a < (2::rat) powi (k + 1) * 2 powi (bitlen b - 1)"
      using A(2) by (simp add: k_def power_int_add[symmetric])
    also have "\<dots> \<le> 2 powi (k + 1) * of_int b"
      using B(1) by (simp add: mult_left_mono)
    finally show ?thesis using bq by (simp add: q pos_divide_less_eq)
  qed
  have low: "2 powi (k - 1) \<le> q"
  proof -
    have "(2::rat) powi (k - 1) * of_int b \<le> 2 powi (k - 1) * 2 powi (bitlen b)"
      using B(2) by (simp add: mult_left_mono)
    also have "\<dots> = 2 powi (bitlen a - 1)"
      by (simp add: k_def power_int_add[symmetric])
    also have "\<dots> \<le> of_int a" using A(1) .
    finally show ?thesis using bq by (simp add: q pos_le_divide_eq)
  qed
  show ?thesis
  proof (cases "2 powi k \<le> q")
    case True
    then have "ilog2 q = k" by (simp add: ilog2_def ab k_def)
    then show ?thesis using True up by simp
  next
    case False
    then have "ilog2 q = k - 1" by (simp add: ilog2_def ab k_def)
    then show ?thesis using False low by simp
  qed
qed

lemma ilog2_less:
  assumes "0 < q" "q < 2 powi k"
  shows "ilog2 q < k"
proof -
  have "2 powi (ilog2 q) \<le> q" using ilog2_bounds[OF assms(1)] by simp
  then have "(2::rat) powi (ilog2 q) < 2 powi k" using assms(2) by (rule le_less_trans)
  then show ?thesis by (simp only: pow2_less_iff)
qed

lemma ilog2_ge:
  assumes "2 powi k \<le> q"
  shows "k \<le> ilog2 q"
proof -
  have "(0::rat) < 2 powi k" by simp
  then have qpos: "0 < q" using assms by (rule less_le_trans)
  have "q < 2 powi (ilog2 q + 1)" using ilog2_bounds[OF qpos] by simp
  with assms have "(2::rat) powi k < 2 powi (ilog2 q + 1)" by simp
  then have "k < ilog2 q + 1" by (simp only: pow2_less_iff)
  then show ?thesis by simp
qed

lemma ilog2_unique:
  assumes "2 powi k \<le> q" "q < 2 powi (k + 1)"
  shows "ilog2 q = k"
proof -
  have "(0::rat) < 2 powi k" by simp
  then have qpos: "0 < q" using assms(1) by (rule less_le_trans)
  have "ilog2 q < k + 1" using qpos assms(2) by (rule ilog2_less)
  moreover have "k \<le> ilog2 q" using assms(1) by (rule ilog2_ge)
  ultimately show ?thesis by simp
qed

lemma ilog2_mono:
  assumes "0 < a" "a \<le> b"
  shows "ilog2 a \<le> ilog2 b"
proof -
  have "2 powi (ilog2 a) \<le> a" using ilog2_bounds[OF assms(1)] by simp
  then have "2 powi (ilog2 a) \<le> b" using assms(2) by simp
  then show ?thesis by (rule ilog2_ge)
qed

lemma expo_ge: "- 1022 \<le> expo q"
  by (simp add: expo_def)

lemma expo_upper:
  assumes "0 < q"
  shows "q < 2 powi (expo q + 1)"
proof -
  have "q < 2 powi (ilog2 q + 1)" using ilog2_bounds[OF assms] by simp
  also have "\<dots> \<le> 2 powi (expo q + 1)" using assms by (simp add: pow2_le_iff expo_def)
  finally show ?thesis .
qed

lemma expo_mono:
  assumes "0 < a" "a \<le> b"
  shows "expo a \<le> expo b"
  using ilog2_mono[OF assms] assms by (simp add: expo_def)

lemma ulp_pos: "0 < ulp q"
  by (simp add: ulp_def)

subsection \<open>Rounding to an integer\<close>

lemma rne_of_int: "rne (of_int n) = n"
  by (simp add: rne_def)

lemma rne_cases: "rne y = \<lfloor>y\<rfloor> \<or> rne y = \<lfloor>y\<rfloor> + 1"
  by (simp add: rne_def Let_def)

lemma rne_ge_int:
  assumes "of_int n \<le> y"
  shows "n \<le> rne y"
proof -
  have "n \<le> \<lfloor>y\<rfloor>" using assms by (simp add: le_floor_iff)
  then show ?thesis using rne_cases[of y] by auto
qed

lemma rne_le_int:
  assumes "y \<le> of_int n"
  shows "rne y \<le> n"
proof (cases "y = of_int n")
  case True
  then show ?thesis by (simp add: rne_of_int)
next
  case False
  then have "y < of_int n" using assms by simp
  then have "\<lfloor>y\<rfloor> < n" by (simp add: floor_less_iff)
  then show ?thesis using rne_cases[of y] by auto
qed

lemma rne_mono:
  assumes "x \<le> y"
  shows "rne x \<le> rne y"
proof (cases "\<lfloor>x\<rfloor> = \<lfloor>y\<rfloor>")
  case False
  have "\<lfloor>x\<rfloor> \<le> \<lfloor>y\<rfloor>" using assms by (rule floor_mono)
  then have "\<lfloor>x\<rfloor> + 1 \<le> \<lfloor>y\<rfloor>" using False by simp
  then show ?thesis using rne_cases[of x] rne_cases[of y] by auto
next
  case True
  have "x - of_int \<lfloor>x\<rfloor> \<le> y - of_int \<lfloor>y\<rfloor>" using assms True by simp
  then show ?thesis using True by (auto simp: rne_def Let_def)
qed

subsection \<open>Rounding to binary64\<close>

lemma r64_0: "r64 0 = 0"
  by (simp add: r64_def rne_def)

lemma r64_nonneg:
  assumes "0 \<le> q"
  shows "0 \<le> r64 q"
proof -
  have "0 \<le> q / ulp q" using assms ulp_pos[of q] by simp
  then have "0 \<le> rne (q / ulp q)" using rne_ge_int[of 0 "q / ulp q"] by simp
  then show ?thesis using ulp_pos[of q] by (simp add: r64_def)
qed

text \<open>Every point of the binary64 grid is left alone by the rounding.\<close>

lemma r64_grid:
  assumes j: "- 1074 \<le> j" and m: "\<bar>m\<bar> < 2 ^ 53"
  shows "r64 (of_int m * 2 powi j) = of_int m * 2 powi j"
proof (cases "m = 0")
  case True
  then show ?thesis by (simp add: r64_0)
next
  case False
  define r :: rat where "r = of_int m * 2 powi j"
  have rabs: "\<bar>r\<bar> = of_int \<bar>m\<bar> * 2 powi j" by (simp add: r_def abs_mult)
  have rpos: "0 < \<bar>r\<bar>" using False by (simp add: r_def)
  have "(of_int \<bar>m\<bar> :: rat) < of_int (2 ^ 53)" using m by (simp only: of_int_less_iff)
  then have "\<bar>r\<bar> < of_int (2 ^ 53) * 2 powi j"
    unfolding rabs by (simp add: mult_strict_right_mono)
  also have "\<dots> = 2 powi (j + 53)" by (simp add: power_int_add)
  finally have "ilog2 \<bar>r\<bar> < j + 53" using rpos by (intro ilog2_less)
  then have e: "expo r - 52 \<le> j" using j by (simp add: expo_def)
  define c :: int where "c = 2 ^ nat (j - (expo r - 52))"
  have split: "(2::rat) powi j = of_int c * ulp r"
    unfolding c_def ulp_def using e by (rule pow2_split)
  have "r = of_int m * 2 powi j" by (simp add: r_def)
  also have "\<dots> = of_int m * (of_int c * ulp r)" by (simp only: split)
  finally have rj: "r = of_int (m * c) * ulp r" by simp
  have "r / ulp r = of_int (m * c) * ulp r / ulp r"
    using arg_cong[OF rj, of "\<lambda>x. x / ulp r"] by simp
  then have "r / ulp r = of_int (m * c)" using ulp_pos[of r] by simp
  then have "rne (r / ulp r) = m * c" by (simp only: rne_of_int)
  then have "r64 r = of_int (m * c) * ulp r" by (simp add: r64_def)
  then have "r64 r = r" using rj by simp
  then show ?thesis by (simp add: r_def)
qed

lemma r64_le_pow2:
  assumes "0 < a" "expo a < k"
  shows "r64 a \<le> 2 powi k"
proof -
  define d where "d = k - (expo a - 52)"
  have "expo a - 52 \<le> k" using assms(2) by simp
  then have split: "(2::rat) powi k = of_int (2 ^ nat d) * ulp a"
    unfolding d_def ulp_def by (rule pow2_split)
  have "a < 2 powi (expo a + 1)" using expo_upper[OF assms(1)] .
  also have "\<dots> \<le> 2 powi k" using assms(2) by (simp add: pow2_le_iff)
  finally have "a / ulp a \<le> of_int (2 ^ nat d)"
    using ulp_pos[of a] by (simp add: split pos_divide_le_eq)
  then have "rne (a / ulp a) \<le> 2 ^ nat d" by (rule rne_le_int)
  then have "(of_int (rne (a / ulp a)) :: rat) \<le> of_int (2 ^ nat d)"
    by (simp only: of_int_le_iff)
  then show ?thesis using ulp_pos[of a] unfolding r64_def split by (simp add: mult_right_mono)
qed

lemma r64_ge_pow2:
  assumes "2 powi k \<le> b" "expo b = k"
  shows "2 powi k \<le> r64 b"
proof -
  have split: "(2::rat) powi k = of_int (2 ^ 52) * ulp b"
    using assms(2) by (simp add: ulp_def power_int_diff)
  have "of_int (2 ^ 52) \<le> b / ulp b"
    using assms(1) ulp_pos[of b] by (simp add: split pos_le_divide_eq)
  then have "2 ^ 52 \<le> rne (b / ulp b)" by (rule rne_ge_int)
  then have "(of_int (2 ^ 52) :: rat) \<le> of_int (rne (b / ulp b))"
    by (simp only: of_int_le_iff)
  then show ?thesis using ulp_pos[of b] unfolding r64_def split by (simp add: mult_right_mono)
qed

text \<open>Rounding is monotone on the non-negative rationals.\<close>

lemma r64_mono:
  assumes "0 \<le> a" "a \<le> b"
  shows "r64 a \<le> r64 b"
proof (cases "a = 0")
  case True
  then show ?thesis using r64_nonneg[of b] assms by (simp add: r64_0)
next
  case False
  then have apos: "0 < a" using assms(1) by simp
  then have bpos: "0 < b" using assms(2) by simp
  have le: "expo a \<le> expo b" using expo_mono[OF apos assms(2)] .
  show ?thesis
  proof (cases "expo a = expo b")
    case True
    then have u: "ulp a = ulp b" by (simp add: ulp_def)
    have "a / ulp b \<le> b / ulp b" using assms(2) ulp_pos[of b] by (simp add: divide_right_mono)
    then have "rne (a / ulp b) \<le> rne (b / ulp b)" by (rule rne_mono)
    then have "(of_int (rne (a / ulp b)) :: rat) \<le> of_int (rne (b / ulp b))"
      by (simp only: of_int_le_iff)
    then show ?thesis using ulp_pos[of b] unfolding r64_def u by (simp add: mult_right_mono)
  next
    case False
    then have lt: "expo a < expo b" using le by simp
    then have "- 1022 < expo b" using expo_ge[of a] by simp
    then have eb: "expo b = ilog2 b" using bpos by (simp add: expo_def max_def split: if_splits)
    have "2 powi (expo b) \<le> b" using ilog2_bounds[OF bpos] eb by simp
    then have "2 powi (expo b) \<le> r64 b" by (rule r64_ge_pow2) simp
    moreover have "r64 a \<le> 2 powi (expo b)" using apos lt by (rule r64_le_pow2)
    ultimately show ?thesis by simp
  qed
qed

text \<open>A rounded value is on the grid, so rounding it again changes nothing.\<close>

lemma r64_idem:
  assumes "0 \<le> q"
  shows "r64 (r64 q) = r64 q"
proof (cases "q = 0")
  case True
  then show ?thesis by (simp add: r64_0)
next
  case False
  then have qpos: "0 < q" using assms by simp
  define m where "m = rne (q / ulp q)"
  have r: "r64 q = of_int m * 2 powi (expo q - 52)" by (simp add: r64_def m_def ulp_def)
  have "0 \<le> q / ulp q" using assms ulp_pos[of q] by simp
  then have m0: "0 \<le> m" unfolding m_def using rne_ge_int[of 0 "q / ulp q"] by simp
  have "q < 2 powi (expo q + 1)" using expo_upper[OF qpos] .
  also have "\<dots> = of_int (2 ^ 53) * ulp q" by (simp add: ulp_def power_int_diff power_int_add)
  finally have "q / ulp q \<le> of_int (2 ^ 53)" using ulp_pos[of q] by (simp add: pos_divide_le_eq)
  then have m53: "m \<le> 2 ^ 53" unfolding m_def by (rule rne_le_int)
  have j: "- 1074 \<le> expo q - 52" using expo_ge[of q] by simp
  show ?thesis
  proof (cases "m = 2 ^ 53")
    case False
    then have "\<bar>m\<bar> < 2 ^ 53" using m0 m53 by simp
    from r64_grid[OF j this] show ?thesis by (simp only: r)
  next
    case True
    have "r64 q = of_int (2 ^ 52) * 2 powi (expo q - 51)"
      unfolding r True by (simp add: power_int_diff)
    moreover have "r64 (of_int (2 ^ 52) * 2 powi (expo q - 51)) = of_int (2 ^ 52) * 2 powi (expo q - 51)"
      using j by (intro r64_grid) simp_all
    ultimately show ?thesis by simp
  qed
qed


subsection \<open>Rounded numbers\<close>

lemma round64_Finite_iff: "round64 q = Finite r \<longleftrightarrow> r64 q = r \<and> \<bar>r\<bar> < 2 ^ 1024"
  by (auto simp: round64_def Let_def abs_less_iff)

lemma round64_grid:
  assumes "- 1074 \<le> j" "\<bar>m\<bar> < 2 ^ 53" "\<bar>of_int m * 2 powi j :: rat\<bar> < 2 ^ 1024"
  shows "round64 (of_int m * 2 powi j) = Finite (of_int m * 2 powi j)"
  using r64_grid[OF assms(1,2)] assms(3) by (simp add: round64_Finite_iff)

lemma round64_of_int:
  assumes "\<bar>n\<bar> \<le> 2 ^ 53"
  shows "round64 (of_int n) = Finite (of_int n)"
proof -
  have "(of_int \<bar>n\<bar> :: rat) \<le> of_int (2 ^ 53)" using assms by (simp only: of_int_le_iff)
  then have small: "\<bar>of_int n :: rat\<bar> < 2 ^ 1024" by simp
  show ?thesis
  proof (cases "\<bar>n\<bar> = 2 ^ 53")
    case False
    then have "\<bar>n\<bar> < 2 ^ 53" using assms by simp
    from r64_grid[of 0 n, OF _ this] have "r64 (of_int n) = of_int n" by simp
    then show ?thesis using small by (simp add: round64_Finite_iff)
  next
    case True
    then have "n = 2 ^ 53 \<or> n = - (2 ^ 53)" by (simp add: abs_if split: if_splits)
    then have n: "(of_int n :: rat) = of_int (n div 2) * 2 powi 1" by auto
    have "\<bar>n div 2\<bar> < 2 ^ 53" using True by (simp add: abs_if split: if_splits)
    from r64_grid[of 1 "n div 2", OF _ this] have "r64 (of_int n) = of_int n"
      by (simp only: n[symmetric])
    then show ?thesis using small by (simp add: round64_Finite_iff)
  qed
qed

lemma round64_numeral:
  assumes "(numeral k :: int) \<le> 2 ^ 53"
  shows "round64 (numeral k) = Finite (numeral k)"
  using round64_of_int[of "numeral k"] assms by simp

lemma round64_0: "round64 0 = Finite 0"
  using round64_of_int[of 0] by simp

lemma round64_1: "round64 1 = Finite 1"
  using round64_of_int[of 1] by simp

lemma round64_nonneg:
  assumes "0 \<le> q"
  shows "nonneg_number (round64 q)"
proof (cases "2 ^ 1024 \<le> r64 q")
  case True
  then show ?thesis by (simp add: round64_def nonneg_number_def)
next
  case False
  have nn: "0 \<le> r64 q" using assms by (rule r64_nonneg)
  then have 1: "round64 q = Finite (r64 q)" using False by (simp add: round64_def)
  have "r64 (r64 q) = r64 q" using assms by (rule r64_idem)
  then have "round64 (r64 q) = Finite (r64 q)" using False nn by (simp add: round64_Finite_iff)
  then show ?thesis using nn 1 by (simp add: nonneg_number_def is_double_def)
qed

lemma round64_overflow:
  assumes "2 ^ 1024 \<le> q"
  shows "round64 q = Infinity"
proof -
  have "r64 (of_int 1 * 2 powi 1024) = of_int 1 * 2 powi 1024" by (rule r64_grid) simp_all
  then have "r64 (2 ^ 1024) = 2 ^ 1024" by simp
  moreover have "r64 (2 ^ 1024) \<le> r64 q" using assms by (intro r64_mono) simp_all
  ultimately show ?thesis by (simp add: round64_def)
qed

lemma rne_near:
  assumes "\<bar>y - of_int m\<bar> < 1 / 2"
  shows "rne y = m"
proof -
  have f: "of_int \<lfloor>y\<rfloor> \<le> y" "y < of_int \<lfloor>y\<rfloor> + 1" by linarith+
  have "\<lfloor>y\<rfloor> = m \<or> \<lfloor>y\<rfloor> = m - 1"
  proof -
    have "of_int (m - 1) \<le> y" "y < of_int (m + 1)" using assms[unfolded abs_less_iff] by auto
    then have "m - 1 \<le> \<lfloor>y\<rfloor>" "\<lfloor>y\<rfloor> < m + 1" by (simp_all only: le_floor_iff floor_less_iff)
    then show ?thesis by linarith
  qed
  then show ?thesis
  proof
    assume fl: "\<lfloor>y\<rfloor> = m"
    have "y - of_int m < 1 / 2" using assms[unfolded abs_less_iff] by simp
    then show ?thesis unfolding rne_def Let_def fl by simp
  next
    assume fl: "\<lfloor>y\<rfloor> = m - 1"
    have "1 / 2 < y - of_int (m - 1)" using assms[unfolded abs_less_iff] by simp
    then have "\<not> y - of_int (m - 1) < 1 / 2" by simp
    then show ?thesis unfolding rne_def Let_def fl using \<open>1 / 2 < y - of_int (m - 1)\<close> by simp
  qed
qed

lemma rne_tie:
  assumes "\<bar>y - of_int m\<bar> = 1 / 2" "even m"
  shows "rne y = m"
proof -
  have "y = of_int m + 1 / 2 \<or> y = of_int (m - 1) + 1 / 2"
    using assms(1) by (auto simp: abs_if split: if_splits)
  then show ?thesis
  proof
    assume y: "y = of_int m + 1 / 2"
    have "\<lfloor>y\<rfloor> = m" unfolding y by (rule floor_unique) simp_all
    then show ?thesis using assms(2) by (simp add: rne_def Let_def y)
  next
    assume y: "y = of_int (m - 1) + 1 / 2"
    have "\<lfloor>y\<rfloor> = m - 1" unfolding y by (rule floor_unique) simp_all
    then show ?thesis using assms(2) by (simp add: rne_def Let_def y)
  qed
qed

lemma round64_eval:
  assumes "2 powi k \<le> \<bar>q\<bar>" "\<bar>q\<bar> < 2 powi (k + 1)" "- 1022 \<le> k"
    and "\<bar>q / 2 powi (k - 52) - of_int m\<bar> < 1 / 2
         \<or> \<bar>q / 2 powi (k - 52) - of_int m\<bar> = 1 / 2 \<and> even m"
    and "\<bar>of_int m * 2 powi (k - 52) :: rat\<bar> < 2 ^ 1024"
  shows "round64 q = Finite (of_int m * 2 powi (k - 52))"
proof -
  have "ilog2 \<bar>q\<bar> = k" using assms(1,2) by (rule ilog2_unique)
  then have u: "ulp q = 2 powi (k - 52)" using assms(3) by (simp add: ulp_def expo_def)
  have "rne (q / 2 powi (k - 52)) = m" using assms(4) rne_near rne_tie by blast
  then have "r64 q = of_int m * 2 powi (k - 52)" using u by (simp add: r64_def)
  then show ?thesis using assms(5) by (simp add: round64_Finite_iff)
qed

subsection \<open>Some conversions of amount texts\<close>

lemmas parseFloat_defs =
  parseFloat_def strUnsignedDecimalLiteral_def isWhiteSpace_def isDigit_def digitsValue_def
  exponentPart_def

lemma parseFloat_empty: "parseFloat [] = NaN"
  by (simp add: parseFloat_defs)

lemma parseFloat_200: "parseFloat ''200'' = Finite 200"
  by (simp add: parseFloat_defs round64_numeral)

lemma parseFloat_4900: "parseFloat ''4900'' = Finite 4900"
  by (simp add: parseFloat_defs round64_numeral)

lemma parseFloat_abc: "parseFloat ''abc'' = NaN"
  by (simp add: parseFloat_defs)

lemma parseFloat_minus_5: "parseFloat ''-5'' = Finite (- 5)"
  by (simp add: parseFloat_defs round64_numeral)


lemma parseFloat_Infinity: "parseFloat ''Infinity'' = Infinity"
  by (simp add: parseFloat_defs)

lemma parseFloat_1e309: "parseFloat ''1e309'' = Infinity"
proof -
  have "round64 (10 ^ 309) = Infinity" by (rule round64_overflow) simp
  then show ?thesis by (simp add: parseFloat_defs)
qed

lemma parseFloat_tenth: "parseFloat ''0.1'' = Finite (3602879701896397 / 2 ^ 55)"
proof -
  have "round64 (1 / 10) = Finite (3602879701896397 / 2 ^ 55)"
    using round64_eval[of "- 4" "1 / 10" 7205759403792794] by simp
  then show ?thesis by (simp add: parseFloat_defs)
qed

lemma parseFloat_fifth: "parseFloat ''0.2'' = Finite (3602879701896397 / 2 ^ 54)"
proof -
  have "round64 (1 / 5) = Finite (3602879701896397 / 2 ^ 54)"
    using round64_eval[of "- 3" "1 / 5" 7205759403792794] by simp
  then show ?thesis by (simp add: parseFloat_defs)
qed

section \<open>Properties of the component\<close>

subsection \<open>Accepted amounts\<close>

lemma nonneg_number_Infinity: "nonneg_number Infinity"
  by (simp add: nonneg_number_def)

lemma strUnsignedDecimalLiteral_cases:
  "strUnsignedDecimalLiteral u = NaN \<or> nonneg_number (strUnsignedDecimalLiteral u)"
proof -
  have "nonneg_number (round64 ((of_nat a + of_nat b / 10 ^ n) * 10 powi e))" for a b :: nat and n e
    by (rule round64_nonneg) simp
  then show ?thesis
    by (simp add: strUnsignedDecimalLiteral_def Let_def nonneg_number_Infinity)
qed

lemma num_neg_rejected:
  assumes "nonneg_number x"
  shows "num_le (num_neg x) (Finite 0)"
  using assms by (cases x) (simp_all add: nonneg_number_def)

lemma nonneg_accepted:
  assumes "nonneg_number x" "\<not> num_le x (Finite 0)"
  shows "positive_number x"
  using assms by (cases x) (simp_all add: nonneg_number_def positive_number_def)

lemma parseFloat_accepted:
  assumes "\<not> isNaN (parseFloat t)" "\<not> num_le (parseFloat t) (Finite 0)"
  shows "positive_number (parseFloat t)"
proof -
  define w where "w = dropWhile isWhiteSpace t"
  have "parseFloat t = num_neg (strUnsignedDecimalLiteral (tl w))
      \<or> parseFloat t = strUnsignedDecimalLiteral (tl w)
      \<or> parseFloat t = strUnsignedDecimalLiteral w"
    unfolding parseFloat_def Let_def w_def[symmetric] by auto
  then consider (neg) "parseFloat t = num_neg (strUnsignedDecimalLiteral (tl w))"
    | (pos) "parseFloat t = strUnsignedDecimalLiteral (tl w)"
    | (plain) "parseFloat t = strUnsignedDecimalLiteral w"
    by blast
  then show ?thesis
  proof cases
    case neg
    from strUnsignedDecimalLiteral_cases[of "tl w"] show ?thesis
    proof
      assume "strUnsignedDecimalLiteral (tl w) = NaN"
      then show ?thesis using neg assms(1) by (simp add: isNaN_def)
    next
      assume "nonneg_number (strUnsignedDecimalLiteral (tl w))"
      then show ?thesis using neg assms(2) num_neg_rejected by simp
    qed
  next
    case pos
    from strUnsignedDecimalLiteral_cases[of "tl w"] show ?thesis
      using pos assms by (auto simp: isNaN_def intro: nonneg_accepted)
  next
    case plain
    from strUnsignedDecimalLiteral_cases[of w] show ?thesis
      using plain assms by (auto simp: isNaN_def intro: nonneg_accepted)
  qed
qed

lemma positive_number_iff:
  "positive_number x \<longleftrightarrow> nonneg_number x \<and> \<not> num_le x (Finite 0)"
  by (cases x) (auto simp: nonneg_number_def positive_number_def)

lemma positive_number_not_rejected:
  assumes "positive_number x"
  shows "\<not> isNaN x" "\<not> num_le x (Finite 0)" "num_lt (Finite 0) x"
  using assms by (cases x; simp add: positive_number_def isNaN_def)+

subsection \<open>The three outcomes of addExpense\<close>

lemma addExpense_cases:
  obtains (missing) "addExpense now today s = (MissingInformation, s)"
      "expenseName s = [] \<or> expenseAmount s = [] \<or> expenseCategory s = []"
    | (invalid) "addExpense now today s = (InvalidAmount, s)"
      "expenseName s \<noteq> []" "expenseAmount s \<noteq> []" "expenseCategory s \<noteq> []"
      "isNaN (parseFloat (expenseAmount s)) \<or> num_le (parseFloat (expenseAmount s)) (Finite 0)"
    | (added) "addExpense now today s =
        (ExpenseAdded (expenseName s) (parseFloat (expenseAmount s)),
         s\<lparr>expenses := expenses s @ [\<lparr>id_str = toString now, name = expenseName s,
               amount = parseFloat (expenseAmount s), category = expenseCategory s,
               date = today\<rparr>],
           expenseName := [], expenseAmount := [], expenseCategory := []\<rparr>)"
      "expenseName s \<noteq> []" "expenseAmount s \<noteq> []" "expenseCategory s \<noteq> []"
      "positive_number (parseFloat (expenseAmount s))"
proof (cases "expenseName s = [] \<or> expenseAmount s = [] \<or> expenseCategory s = []")
  case True
  then show ?thesis using missing by (simp add: addExpense_def)
next
  case False
  show ?thesis
  proof (cases "isNaN (parseFloat (expenseAmount s)) \<or> num_le (parseFloat (expenseAmount s)) (Finite 0)")
    case True
    then show ?thesis using False invalid by (simp add: addExpense_def Let_def)
  next
    case ok: False
    then have "positive_number (parseFloat (expenseAmount s))"
      using parseFloat_accepted by blast
    then show ?thesis using False ok added by (simp add: addExpense_def Let_def)
  qed
qed

subsection \<open>Runs of events\<close>

lemma run_Nil: "run [] = initialState"
  by (simp add: run_def)

lemma run_snoc: "run (evs @ [ev]) = step (run evs) ev"
  by (simp add: run_def)

lemma ledger_ok_Nil: "ledger_ok []"
  by (simp add: ledger_ok_def)

lemma ledger_ok_snoc:
  "ledger_ok (es @ [e]) \<longleftrightarrow> ledger_ok es \<and> positive_number (amount e) \<and> name e \<noteq> [] \<and> category e \<noteq> []"
  by (auto simp: ledger_ok_def)

lemma addExpense_ledger_ok:
  assumes "ledger_ok (expenses s)"
  shows "ledger_ok (expenses (snd (addExpense now today s)))"
  by (cases now today s rule: addExpense_cases) (simp_all add: assms ledger_ok_snoc)

lemma step_ledger_ok:
  assumes "ledger_ok (expenses s)"
  shows "ledger_ok (expenses (step s ev))"
  using assms by (cases ev) (simp_all add: addExpense_ledger_ok)

lemma run_ledger_ok: "ledger_ok (expenses (run evs))"
proof (induction evs rule: rev_induct)
  case Nil
  show ?case by (simp add: run_Nil initialState_def ledger_ok_Nil)
next
  case (snoc ev evs)
  then show ?case by (simp only: run_snoc step_ledger_ok)
qed

subsection \<open>Sums of accepted amounts\<close>

lemma totalSpent_Nil: "totalSpent [] = Finite 0"
  by (simp add: totalSpent_def)

lemma totalSpent_snoc: "totalSpent (es @ [e]) = num_add (totalSpent es) (amount e)"
  by (simp add: totalSpent_def)

lemma totalSpent_amounts:
  "totalSpent es = foldl num_add (Finite 0) (map amount es)"
  by (simp add: totalSpent_def foldl_map)

lemma is_double_0: "is_double 0"
  by (simp add: is_double_def round64_0)

lemma num_add_positive:
  assumes "nonneg_number a" "positive_number b"
  shows "positive_number (num_add a b)" and "num_le a (num_add a b)"
proof -
  show "positive_number (num_add a b)"
  proof (cases a)
    case (Finite x)
    show ?thesis
    proof (cases b)
      case b: (Finite y)
      have x: "0 \<le> x" and y: "0 < y" "r64 y = y"
        using assms Finite b
        by (simp_all add: nonneg_number_def positive_number_def is_double_def round64_Finite_iff)
      have "r64 y \<le> r64 (x + y)" using x y(1) by (intro r64_mono) simp_all
      then have "0 < r64 (x + y)" using y by simp
      then have "\<not> num_le (round64 (x + y)) (Finite 0)"
        by (simp add: round64_def Let_def)
      moreover have "nonneg_number (round64 (x + y))" using x y(1) by (intro round64_nonneg) simp
      ultimately show ?thesis using Finite b by (simp add: positive_number_iff)
    qed (use assms Finite in \<open>simp_all add: positive_number_def\<close>)
  next
    case Infinity
    then show ?thesis using assms(2) by (cases b) (simp_all add: positive_number_def)
  qed (use assms in \<open>simp_all add: nonneg_number_def\<close>)
  show "num_le a (num_add a b)"
  proof (cases a)
    case (Finite x)
    show ?thesis
    proof (cases b)
      case b: (Finite y)
      have x: "0 \<le> x" "r64 x = x" and y: "0 < y"
        using assms Finite b
        by (simp_all add: nonneg_number_def positive_number_def is_double_def round64_Finite_iff)
      have "r64 x \<le> r64 (x + y)" using x(1) y by (intro r64_mono) simp_all
      then have le: "x \<le> r64 (x + y)" using x(2) by simp
      have "0 \<le> r64 (x + y)" using x(1) le by simp
      then show ?thesis using Finite b le by (simp add: round64_def Let_def)
    qed (use assms Finite in \<open>simp_all add: positive_number_def\<close>)
  next
    case Infinity
    then show ?thesis using assms(2) by (cases b) (simp_all add: positive_number_def)
  qed (use assms in \<open>simp_all add: nonneg_number_def\<close>)
qed

lemma positive_nonneg: "positive_number x \<Longrightarrow> nonneg_number x"
  by (simp add: positive_number_iff)

lemma totalSpent_nonneg:
  assumes "ledger_ok es"
  shows "nonneg_number (totalSpent es)" and "es \<noteq> [] \<Longrightarrow> positive_number (totalSpent es)"
  using assms
proof (induction es rule: rev_induct)
  case Nil
  {
    case 1
    show ?case by (simp add: totalSpent_Nil nonneg_number_def is_double_0)
  next
    case 2
    then show ?case by simp
  }
next
  case (snoc e es)
  {
    case 1
    then have "nonneg_number (totalSpent es)" "positive_number (amount e)"
      using snoc.IH(1) by (simp_all add: ledger_ok_snoc)
    then have "positive_number (num_add (totalSpent es) (amount e))"
      by (rule num_add_positive(1))
    then show ?case by (simp add: totalSpent_snoc positive_nonneg)
  next
    case 2
    then have "nonneg_number (totalSpent es)" "positive_number (amount e)"
      using snoc.IH(1) by (simp_all add: ledger_ok_snoc)
    then show ?case unfolding totalSpent_snoc by (rule num_add_positive(1))
  }
qed

section \<open>One call of addExpense\<close>

text \<open>
  C5. Validation order: the empty-field check comes first, so whenever the name, the amount
  text or the category is empty the toast is "Missing Information", whatever the amount
  text would parse to (in particular when it is unparseable or not positive).
\<close>

theorem missing_field_checked_first:
  assumes "expenseName s = [] \<or> expenseAmount s = [] \<or> expenseCategory s = []"
  shows "addExpense now today s = (MissingInformation, s)"
  using assms by (simp add: addExpense_def)

theorem missing_field_checked_first_witness:
  "addExpense 1700000000000 1700000000000
     \<lparr>expenses = [], expenseName = [], expenseAmount = ''abc'', expenseCategory = ''Food''\<rparr>
   = (MissingInformation,
      \<lparr>expenses = [], expenseName = [], expenseAmount = ''abc'', expenseCategory = ''Food''\<rparr>)
   \<and> parseFloat ''abc'' = NaN"
  using missing_field_checked_first[of
      "\<lparr>expenses = [], expenseName = [], expenseAmount = ''abc'', expenseCategory = ''Food''\<rparr>"
      1700000000000 1700000000000]
  by (simp add: parseFloat_abc)




text \<open>
  C1. For every valid input (a non-empty name, an amount text that parses to a positive finite
  number and a non-empty category) \<^verbatim>\<open>addExpense\<close> succeeds and the new list of expenses is
  the old one followed by exactly one entry, whose name, amount and category are the inputs.
\<close>

theorem valid_input_appends:
  assumes "expenseName s \<noteq> []" "parseFloat (expenseAmount s) = Finite v" "0 < v"
    and "expenseCategory s \<noteq> []"
  shows "fst (addExpense now today s) = ExpenseAdded (expenseName s) (Finite v)
         \<and> expenses (snd (addExpense now today s))
           = expenses s @ [\<lparr>id_str = toString now, name = expenseName s, amount = Finite v,
                             category = expenseCategory s, date = today\<rparr>]"
proof -
  have "expenseAmount s \<noteq> []" using assms(2) by (auto simp: parseFloat_empty)
  then show ?thesis using assms by (simp add: addExpense_def isNaN_def Let_def)
qed

theorem valid_input_appends_witness:
  "''Lunch'' \<noteq> [] \<and> parseFloat ''200'' = Finite 200 \<and> (0::rat) < 200 \<and> ''Food'' \<noteq> []
   \<and> addExpense 1700000000000 1700000000001
       \<lparr>expenses = [], expenseName = ''Lunch'', expenseAmount = ''200'', expenseCategory = ''Food''\<rparr>
     = (ExpenseAdded ''Lunch'' (Finite 200),
        \<lparr>expenses = [\<lparr>id_str = ''1700000000000'', name = ''Lunch'', amount = Finite 200,
                        category = ''Food'', date = 1700000000001\<rparr>],
         expenseName = [], expenseAmount = [], expenseCategory = []\<rparr>)"
  using valid_input_appends[of
      "\<lparr>expenses = [], expenseName = ''Lunch'', expenseAmount = ''200'', expenseCategory = ''Food''\<rparr>"
      200 1700000000000 1700000000001]
  by (simp add: parseFloat_200 addExpense_def isNaN_def Let_def toString_def digitsOf.simps digitChar_def)

text \<open>
  C8. The category is not compared with \<open>categories\<close>: for every non-empty name, every amount
  text that parses to a positive finite number and every non-empty category, whether listed
  or not, \<^verbatim>\<open>addExpense\<close> succeeds and the appended entry carries that category unchanged.
\<close>

theorem category_not_checked:
  assumes "expenseName s \<noteq> []" "parseFloat (expenseAmount s) = Finite v" "0 < v"
    and "expenseCategory s \<noteq> []"
  shows "(\<exists>a. fst (addExpense now today s) = ExpenseAdded (expenseName s) a)
         \<and> map category (expenses (snd (addExpense now today s)))
           = map category (expenses s) @ [expenseCategory s]"
proof -
  have "expenseAmount s \<noteq> []" using assms(2) by (auto simp: parseFloat_empty)
  then show ?thesis using assms by (simp add: addExpense_def isNaN_def Let_def)
qed

theorem category_not_checked_witness:
  "''Rent'' \<notin> set categories \<and> parseFloat ''4900'' = Finite 4900
   \<and> fst (addExpense 1700000000000 1700000000000
       \<lparr>expenses = [], expenseName = ''Flat'', expenseAmount = ''4900'', expenseCategory = ''Rent''\<rparr>)
      = ExpenseAdded ''Flat'' (Finite 4900)
   \<and> map category (expenses (snd (addExpense 1700000000000 1700000000000
       \<lparr>expenses = [], expenseName = ''Flat'', expenseAmount = ''4900'', expenseCategory = ''Rent''\<rparr>)))
     = [''Rent'']"
  using category_not_checked[of
      "\<lparr>expenses = [], expenseName = ''Flat'', expenseAmount = ''4900'', expenseCategory = ''Rent''\<rparr>"
      4900 1700000000000 1700000000000]
  by (simp add: parseFloat_4900 categories_def addExpense_def isNaN_def Let_def)

text \<open>
  C6. \<^verbatim>\<open>addExpense\<close> shows "Invalid Amount" exactly when the amount text is unparseable,
  parses to a value that is not finite, or parses to a value that is at most 0. The guard
  tests for NaN and for a value that is at most 0 only: the text \<^verbatim>\<open>1e309\<close> parses to
  \<open>Infinity\<close>, passes the guard, and the expense is added with that amount.
\<close>

theorem infinite_amount_accepted:
  "parseFloat ''1e309'' = Infinity
   \<and> fst (addExpense 1700000000000 1700000000000
        \<lparr>expenses = [], expenseName = ''Lunch'', expenseAmount = ''1e309'',
         expenseCategory = ''Food''\<rparr>) \<noteq> InvalidAmount
   \<and> map amount (expenses (snd (addExpense 1700000000000 1700000000000
        \<lparr>expenses = [], expenseName = ''Lunch'', expenseAmount = ''1e309'',
         expenseCategory = ''Food''\<rparr>))) = [Infinity]"
  by (simp add: addExpense_def Let_def parseFloat_1e309 isNaN_def)

text \<open>
  What the guard on the amount does, for every input: "Invalid Amount" is shown exactly when
  the three fields are non-empty and \<^verbatim>\<open>parseFloat\<close> of the amount text is NaN or at most
  0, and the amount of an added expense is what the text parses to, a positive binary64
  value or \<open>Infinity\<close>.
\<close>

lemma amount_guard:
  "(fst (addExpense now today s) = InvalidAmount \<longleftrightarrow>
      expenseName s \<noteq> [] \<and> expenseAmount s \<noteq> [] \<and> expenseCategory s \<noteq> []
      \<and> (isNaN (parseFloat (expenseAmount s)) \<or> num_le (parseFloat (expenseAmount s)) (Finite 0)))
   \<and> (fst (addExpense now today s) = ExpenseAdded n a \<longrightarrow>
      a = parseFloat (expenseAmount s) \<and> positive_number a)"
proof (cases now today s rule: addExpense_cases)
  case missing
  then show ?thesis by auto
next
  case invalid
  then show ?thesis by simp
next
  case added
  then show ?thesis using positive_number_not_rejected(1,2)[OF added(5)] by auto
qed

section \<open>The ledger over time\<close>

subsection \<open>Two submissions\<close>

lemma run_append: "run (evs @ evs') = foldl step (run evs) evs'"
  by (simp add: run_def)

lemma step_submit:
  "foldl step s (submit n a c t)
   = snd (addExpense t t (s\<lparr>expenseName := n, expenseAmount := a, expenseCategory := c\<rparr>))"
  by (simp add: submit_def)

lemma submit_accepted:
  assumes "n \<noteq> []" "c \<noteq> []" "positive_number (parseFloat a)"
  shows "expenses (foldl step s (submit n a c t))
         = expenses s @ [\<lparr>id_str = toString t, name = n, amount = parseFloat a, category = c,
                           date = t\<rparr>]"
proof -
  have "a \<noteq> []" using assms(3) by (auto simp: parseFloat_empty positive_number_def)
  then show ?thesis
    using assms positive_number_not_rejected(1,2)[OF assms(3)]
    by (simp add: step_submit addExpense_def Let_def)
qed

lemma positive_number_numeral:
  assumes "(numeral k :: int) \<le> 2 ^ 53"
  shows "positive_number (Finite (numeral k))"
  using assms by (simp add: positive_number_def is_double_def round64_numeral)

lemma run_lunch_phone:
  "expenses (run (submit ''Lunch'' ''200'' ''Food'' 1700000000000
                  @ submit ''Phone'' ''4900'' ''Shopping'' 1700000000005))
   = [\<lparr>id_str = ''1700000000000'', name = ''Lunch'', amount = Finite 200, category = ''Food'',
        date = 1700000000000\<rparr>,
      \<lparr>id_str = ''1700000000005'', name = ''Phone'', amount = Finite 4900,
        category = ''Shopping'', date = 1700000000005\<rparr>]"
  by (simp add: run_def submit_accepted parseFloat_200 parseFloat_4900 positive_number_numeral
      toString_def digitsOf.simps digitChar_def initialState_def)


lemma totalSpent_pair:
  "totalSpent [e1, e2] = num_add (num_add (Finite 0) (amount e1)) (amount e2)"
  by (simp add: totalSpent_def)

subsection \<open>The budget card\<close>
















subsection \<open>The error of rounding\<close>









subsection \<open>The usage percentage\<close>
























subsection \<open>The total over time\<close>

lemma num_le_refl:
  assumes "nonneg_number t"
  shows "num_le t t"
  using assms by (cases t) (simp_all add: nonneg_number_def)

lemma addExpense_appends_at_most_one:
  "\<exists>ys. expenses (snd (addExpense now today s)) = expenses s @ ys \<and> length ys \<le> 1"
  by (cases now today s rule: addExpense_cases) simp_all

lemma step_appends_at_most_one:
  "\<exists>ys. expenses (step s ev) = expenses s @ ys \<and> length ys \<le> 1"
proof (cases ev)
  case (ClickAdd now today)
  then show ?thesis using addExpense_appends_at_most_one[of now today s] by simp
qed simp_all

lemma addExpense_total_mono:
  assumes "ledger_ok (expenses s)"
  shows "num_le (totalSpent (expenses s)) (totalSpent (expenses (snd (addExpense now today s))))"
proof -
  have t: "nonneg_number (totalSpent (expenses s))" using assms by (rule totalSpent_nonneg(1))
  show ?thesis
  proof (cases now today s rule: addExpense_cases)
    case added
    then show ?thesis using num_add_positive(2)[OF t added(5)] by (simp add: totalSpent_snoc)
  qed (simp_all add: num_le_refl[OF t])
qed

lemma step_total_mono:
  assumes "ledger_ok (expenses s)"
  shows "num_le (totalSpent (expenses s)) (totalSpent (expenses (step s ev)))"
proof (cases ev)
  case (ClickAdd now today)
  then show ?thesis using addExpense_total_mono[OF assms] by simp
qed (simp_all add: num_le_refl[OF totalSpent_nonneg(1)[OF assms]])

lemma total_zero_iff:
  assumes "ledger_ok es"
  shows "totalSpent es = Finite 0 \<longleftrightarrow> es = []"
proof
  assume z: "totalSpent es = Finite 0"
  show "es = []"
  proof (rule ccontr)
    assume "es \<noteq> []"
    then have "positive_number (totalSpent es)" using assms totalSpent_nonneg(2) by blast
    then show False using z by (simp add: positive_number_def)
  qed
next
  assume "es = []"
  then show "totalSpent es = Finite 0" by (simp add: totalSpent_Nil)
qed

lemma parseFloat_2_53: "parseFloat ''9007199254740992'' = Finite 9007199254740992"
  by (simp add: parseFloat_defs round64_numeral)

lemma parseFloat_1: "parseFloat ''1'' = Finite 1"
  by (simp add: parseFloat_defs round64_1)

lemma positive_number_1: "positive_number (Finite 1)"
  by (simp add: positive_number_def is_double_def round64_1)

lemma round64_2_53_plus_1: "round64 9007199254740993 = Finite 9007199254740992"
  using round64_eval[of 53 9007199254740993 4503599627370496] by simp

lemma run_rent_tea:
  "map amount (expenses (run (submit ''Rent'' ''9007199254740992'' ''Other'' 1700000000000)))
     = [Finite 9007199254740992]"
  "map amount (expenses (run (submit ''Rent'' ''9007199254740992'' ''Other'' 1700000000000
                  @ submit ''Tea'' ''1'' ''Food'' 1700000000005)))
     = [Finite 9007199254740992, Finite 1]"
  by (simp_all add: run_def submit_accepted parseFloat_2_53 parseFloat_1 positive_number_numeral
      positive_number_1 initialState_def)

text \<open>
  C10, as stated: the total is strictly larger after every successful append. After an
  expense of 9007199254740992, an expense of 1 is accepted and appended, and the total is
  9007199254740992 before and after: the sum 9007199254740993 is not a binary64 value and
  rounds back.
\<close>

theorem append_absorbed_by_rounding:
  "map amount (expenses (run (submit ''Rent'' ''9007199254740992'' ''Other'' 1700000000000
                  @ submit ''Tea'' ''1'' ''Food'' 1700000000005)))
     = [Finite 9007199254740992, Finite 1]
   \<and> totalSpent (expenses (run (submit ''Rent'' ''9007199254740992'' ''Other'' 1700000000000)))
     = Finite 9007199254740992
   \<and> totalSpent (expenses (run (submit ''Rent'' ''9007199254740992'' ''Other'' 1700000000000
                  @ submit ''Tea'' ''1'' ''Food'' 1700000000005)))
     = Finite 9007199254740992
   \<and> \<not> num_lt
        (totalSpent (expenses (run (submit ''Rent'' ''9007199254740992'' ''Other'' 1700000000000))))
        (totalSpent (expenses (run (submit ''Rent'' ''9007199254740992'' ''Other'' 1700000000000
                  @ submit ''Tea'' ''1'' ''Food'' 1700000000005))))"
  by (simp add: totalSpent_amounts run_rent_tea round64_numeral round64_2_53_plus_1)

text \<open>
  C10, amended. In every state the component reaches, every expense has an amount greater
  than 0, a non-empty name and a non-empty category; every event leaves the list of expenses
  as it is or appends one entry; the total never decreases from one state to the next; and
  the total is 0 only when there is no expense.
\<close>

theorem ledger_invariant:
  "(\<forall>e \<in> set (expenses (run evs)).
      num_lt (Finite 0) (amount e) \<and> name e \<noteq> [] \<and> category e \<noteq> [])
   \<and> (\<exists>ys. expenses (step (run evs) ev) = expenses (run evs) @ ys \<and> length ys \<le> 1)
   \<and> num_le (totalSpent (expenses (run evs))) (totalSpent (expenses (step (run evs) ev)))
   \<and> (totalSpent (expenses (run evs)) = Finite 0 \<longleftrightarrow> expenses (run evs) = [])"
proof -
  have ok: "ledger_ok (expenses (run evs))" by (rule run_ledger_ok)
  have "\<forall>e \<in> set (expenses (run evs)).
      num_lt (Finite 0) (amount e) \<and> name e \<noteq> [] \<and> category e \<noteq> []"
    using ok by (auto simp: ledger_ok_def positive_number_not_rejected(3))
  then show ?thesis
    using step_appends_at_most_one[of "run evs" ev] step_total_mono[OF ok, of ev]
      total_zero_iff[OF ok]
    by blast
qed

theorem ledger_invariant_witness:
  "map amount (expenses (run (submit ''Lunch'' ''200'' ''Food'' 1700000000000)))
     = [Finite 200]
   \<and> num_lt (Finite 0) (Finite 200)
   \<and> totalSpent (expenses (run (submit ''Lunch'' ''200'' ''Food'' 1700000000000))) = Finite 200
   \<and> num_le (Finite 200)
       (totalSpent (expenses (step (run (submit ''Lunch'' ''200'' ''Food'' 1700000000000))
          (SetExpenseName ''Phone''))))
   \<and> expenses (run (submit ''Lunch'' ''200'' ''Food'' 1700000000000)) \<noteq> []"
  using ledger_invariant[of "submit ''Lunch'' ''200'' ''Food'' 1700000000000"
      "SetExpenseName ''Phone''"]
  by (simp add: totalSpent_amounts run_def submit_accepted parseFloat_200 positive_number_numeral
      initialState_def round64_numeral)

subsection \<open>The total and the exact sum\<close>

lemma arithmeticSum_Nil: "arithmeticSum [] = 0"
  by (simp add: arithmeticSum_def)

lemma arithmeticSum_snoc:
  "arithmeticSum (es @ [e]) = arithmeticSum es + (case amount e of Finite r \<Rightarrow> r | _ \<Rightarrow> 0)"
  by (simp add: arithmeticSum_def)

lemma whole_amountE:
  assumes "whole_amount x"
  obtains n :: int where "x = Finite (of_int n)" "0 \<le> n"
proof -
  obtain r where r: "x = Finite r" "0 \<le> r" "r = of_int \<lfloor>r\<rfloor>"
    using assms by (cases x) (simp_all add: whole_amount_def)
  have "0 \<le> \<lfloor>r\<rfloor>" using r(2) by simp
  then show ?thesis using r that[of "\<lfloor>r\<rfloor>"] by simp
qed

lemma whole_sum_exact:
  assumes "\<forall>e \<in> set es. whole_amount (amount e)" "arithmeticSum es \<le> 2 ^ 53"
  shows "totalSpent es = Finite (arithmeticSum es) \<and> (\<exists>k::int. 0 \<le> k \<and> arithmeticSum es = of_int k)"
  using assms
proof (induction es rule: rev_induct)
  case Nil
  show ?case by (simp add: totalSpent_Nil arithmeticSum_Nil)
next
  case (snoc e es)
  obtain n :: int where n: "amount e = Finite (of_int n)" "0 \<le> n"
    using snoc.prems(1) by (auto elim: whole_amountE)
  have sum: "arithmeticSum (es @ [e]) = arithmeticSum es + of_int n"
    by (simp add: arithmeticSum_snoc n)
  then have "arithmeticSum es \<le> 2 ^ 53" using snoc.prems(2) n(2) by simp
  then obtain k :: int where k: "totalSpent es = Finite (of_int k)" "0 \<le> k" "arithmeticSum es = of_int k"
    using snoc.IH snoc.prems(1) by auto
  have "(of_int (k + n) :: rat) \<le> of_int (2 ^ 53)" using snoc.prems(2) sum k(3) by simp
  then have "k + n \<le> 2 ^ 53" by (simp only: of_int_le_iff)
  then have "\<bar>k + n\<bar> \<le> 2 ^ 53" using k(2) n(2) by simp
  then have "round64 (of_int (k + n)) = Finite (of_int (k + n))" by (rule round64_of_int)
  then have "totalSpent (es @ [e]) = Finite (of_int (k + n))"
    by (simp add: totalSpent_snoc k(1) n(1))
  moreover have "arithmeticSum (es @ [e]) = of_int (k + n)" by (simp add: sum k(3))
  moreover have "0 \<le> k + n" using k(2) n(2) by simp
  ultimately show ?case by metis
qed

lemma round64_tenth: "round64 (3602879701896397 / 2 ^ 55) = Finite (3602879701896397 / 2 ^ 55)"
  using round64_grid[of "- 55" 3602879701896397] by simp

lemma round64_three_tenths:
  "round64 (3602879701896397 / 2 ^ 55 + 3602879701896397 / 2 ^ 54)
   = Finite (1351079888211149 / 2 ^ 52)"
  using round64_eval[of "- 2" "3602879701896397 / 2 ^ 55 + 3602879701896397 / 2 ^ 54"
      5404319552844596]
  by simp

lemma positive_number_tenth: "positive_number (Finite (3602879701896397 / 2 ^ 55))"
  using round64_tenth by (simp add: positive_number_def is_double_def)

lemma positive_number_fifth: "positive_number (Finite (3602879701896397 / 2 ^ 54))"
  using round64_grid[of "- 54" 3602879701896397] by (simp add: positive_number_def is_double_def)

lemma run_tea_bun:
  "map amount (expenses (run (submit ''Tea'' ''0.1'' ''Food'' 1700000000000
                  @ submit ''Bun'' ''0.2'' ''Food'' 1700000000005)))
     = [Finite (3602879701896397 / 2 ^ 55), Finite (3602879701896397 / 2 ^ 54)]"
  using positive_number_tenth positive_number_fifth
  by (simp add: run_def submit_accepted parseFloat_tenth parseFloat_fifth initialState_def)

lemma arithmeticSum_amounts:
  "arithmeticSum es = sum_list (map (\<lambda>x. case x of Finite r \<Rightarrow> r | _ \<Rightarrow> 0) (map amount es))"
  by (simp add: arithmeticSum_def comp_def)

text \<open>
  C3, as stated: the total equals the arithmetic sum of the amounts. With the amounts entered
  as \<^verbatim>\<open>0.1\<close> and \<^verbatim>\<open>0.2\<close> the two stored amounts are the binary64 values nearest to a
  tenth and a fifth; the total is their sum rounded to binary64, the number JavaScript prints
  as 0.30000000000000004, and differs from their arithmetic sum.
\<close>

theorem total_differs_from_arithmetic_sum:
  "map amount (expenses (run (submit ''Tea'' ''0.1'' ''Food'' 1700000000000
                  @ submit ''Bun'' ''0.2'' ''Food'' 1700000000005)))
     = [Finite (3602879701896397 / 2 ^ 55), Finite (3602879701896397 / 2 ^ 54)]
   \<and> arithmeticSum (expenses (run (submit ''Tea'' ''0.1'' ''Food'' 1700000000000
                  @ submit ''Bun'' ''0.2'' ''Food'' 1700000000005)))
     = 10808639105689191 / 2 ^ 55
   \<and> totalSpent (expenses (run (submit ''Tea'' ''0.1'' ''Food'' 1700000000000
                  @ submit ''Bun'' ''0.2'' ''Food'' 1700000000005)))
     = Finite (10808639105689192 / 2 ^ 55)
   \<and> totalSpent (expenses (run (submit ''Tea'' ''0.1'' ''Food'' 1700000000000
                  @ submit ''Bun'' ''0.2'' ''Food'' 1700000000005)))
     \<noteq> Finite (arithmeticSum (expenses (run (submit ''Tea'' ''0.1'' ''Food'' 1700000000000
                  @ submit ''Bun'' ''0.2'' ''Food'' 1700000000005))))"
  using round64_tenth round64_three_tenths
  by (simp add: totalSpent_amounts arithmeticSum_amounts run_tea_bun)

text \<open>
  C3, amended. The total is the sum of the amounts taken from left to right in binary64
  arithmetic, starting from 0, each partial sum rounded to the nearest binary64 value. It is
  0 for the empty list, and it equals the arithmetic sum of the amounts whenever every amount
  is a whole number and that sum is at most \<open>2\<^sup>5\<^sup>3\<close>. The total is a function of the list
  alone, so computing it again for the same list gives the same value.
\<close>

theorem totalSpent_rounded_sum:
  "totalSpent [] = Finite 0
   \<and> totalSpent (es @ [e]) = num_add (totalSpent es) (amount e)
   \<and> ((\<forall>x \<in> set es. whole_amount (amount x)) \<and> arithmeticSum es \<le> 2 ^ 53
        \<longrightarrow> totalSpent es = Finite (arithmeticSum es))"
  using whole_sum_exact[of es] by (simp add: totalSpent_Nil totalSpent_snoc)

theorem totalSpent_rounded_sum_witness:
  "whole_amount (Finite 200) \<and> whole_amount (Finite 4900)
   \<and> arithmeticSum (expenses (run (submit ''Lunch'' ''200'' ''Food'' 1700000000000
                  @ submit ''Phone'' ''4900'' ''Shopping'' 1700000000005))) = 5100
   \<and> totalSpent (expenses (run (submit ''Lunch'' ''200'' ''Food'' 1700000000000
                  @ submit ''Phone'' ''4900'' ''Shopping'' 1700000000005))) = Finite 5100"
  using totalSpent_rounded_sum[of
      "expenses (run (submit ''Lunch'' ''200'' ''Food'' 1700000000000
                  @ submit ''Phone'' ''4900'' ''Shopping'' 1700000000005))"]
  by (simp add: run_lunch_phone arithmeticSum_def whole_amount_def)

subsection \<open>Identifiers\<close>

lemma digitChar_inj:
  assumes "a < 10" "b < 10" "digitChar a = digitChar b"
  shows "a = b"
proof -
  have "distinct ''0123456789''" by simp
  moreover have "a < length ''0123456789''" "b < length ''0123456789''" using assms by simp_all
  ultimately show ?thesis using assms(3) unfolding digitChar_def by (simp only: nth_eq_iff_index_eq)
qed

lemma digitChar_not_minus:
  assumes "a < 10"
  shows "digitChar a \<noteq> CHR ''-''"
proof -
  have "a < length ''0123456789''" using assms by simp
  then have "digitChar a \<in> set ''0123456789''" unfolding digitChar_def by (rule nth_mem)
  moreover have "CHR ''-'' \<notin> set ''0123456789''" by simp
  ultimately show ?thesis by metis
qed

lemma digitsOf_nonempty: "digitsOf n \<noteq> []"
  by (subst digitsOf.simps) simp

lemma digitsOf_small: "n < 10 \<Longrightarrow> digitsOf n = [digitChar n]"
  by (subst digitsOf.simps) simp

lemma digitsOf_large: "\<not> n < 10 \<Longrightarrow> digitsOf n = digitsOf (n div 10) @ [digitChar (n mod 10)]"
  by (subst digitsOf.simps) simp

lemma digitsOf_inj: "digitsOf n = digitsOf m \<Longrightarrow> n = m"
proof (induction n arbitrary: m rule: digitsOf.induct)
  case (1 n)
  show ?case
  proof (cases "n < 10")
    case True
    show ?thesis
    proof (cases "m < 10")
      case m: True
      then show ?thesis using True "1.prems" by (simp add: digitsOf_small digitChar_inj)
    next
      case m: False
      then show ?thesis using True "1.prems" digitsOf_nonempty[of "m div 10"]
        by (simp add: digitsOf_small digitsOf_large)
    qed
  next
    case False
    show ?thesis
    proof (cases "m < 10")
      case m: True
      then show ?thesis using False "1.prems" digitsOf_nonempty[of "n div 10"]
        by (simp add: digitsOf_small digitsOf_large)
    next
      case m: False
      from "1.prems" have "digitsOf (n div 10) = digitsOf (m div 10)"
        and d: "digitChar (n mod 10) = digitChar (m mod 10)"
        using False m by (simp_all add: digitsOf_large)
      then have "n div 10 = m div 10" using "1.IH"[OF False] by simp
      moreover have "n mod 10 = m mod 10" using d by (intro digitChar_inj) simp_all
      ultimately show ?thesis by (metis div_mult_mod_eq)
    qed
  qed
qed

lemma digitsOf_hd_not_minus: "hd (digitsOf n) \<noteq> CHR ''-''"
proof (induction n rule: digitsOf.induct)
  case (1 n)
  show ?case
  proof (cases "n < 10")
    case True
    then show ?thesis by (simp add: digitsOf_small digitChar_not_minus)
  next
    case False
    then show ?thesis using "1.IH" digitsOf_nonempty[of "n div 10"]
      by (simp add: digitsOf_large)
  qed
qed

lemma toString_inj: "toString a = toString b \<Longrightarrow> a = b"
proof -
  assume eq: "toString a = toString b"
  have "hd (toString x) = CHR ''-'' \<longleftrightarrow> x < 0" for x
    using digitsOf_hd_not_minus[of "nat x"] by (simp add: toString_def)
  then have sign: "a < 0 \<longleftrightarrow> b < 0" using eq by metis
  show "a = b"
  proof (cases "a < 0")
    case True
    then have "digitsOf (nat (- a)) = digitsOf (nat (- b))" using eq sign by (simp add: toString_def)
    then have "nat (- a) = nat (- b)" by (rule digitsOf_inj)
    then show ?thesis using True sign by simp
  next
    case False
    then have "digitsOf (nat a) = digitsOf (nat b)" using eq sign by (simp add: toString_def)
    then have "nat a = nat b" by (rule digitsOf_inj)
    then show ?thesis using False sign by simp
  qed
qed

lemma clicks_snoc:
  "clicks (evs @ [ev]) = clicks evs @ (case ev of ClickAdd now today \<Rightarrow> [now] | _ \<Rightarrow> [])"
  by (induction evs rule: clicks.induct) (auto split: event.splits)

lemma addExpense_ids:
  "map id_str (expenses (snd (addExpense now today s))) = map id_str (expenses s)
   \<or> map id_str (expenses (snd (addExpense now today s))) = map id_str (expenses s) @ [toString now]"
  by (cases now today s rule: addExpense_cases) simp_all

lemma addExpense_id_set:
  "set (map id_str (expenses (snd (addExpense now today s))))
   \<subseteq> insert (toString now) (set (map id_str (expenses s)))"
  by (cases now today s rule: addExpense_cases) auto

lemma run_ids_from_clicks:
  "set (map id_str (expenses (run evs))) \<subseteq> toString ` set (clicks evs)"
proof (induction evs rule: rev_induct)
  case Nil
  show ?case by (simp add: run_Nil initialState_def)
next
  case (snoc ev evs)
  show ?case
  proof (cases ev)
    case (ClickAdd now today)
    have "set (map id_str (expenses (run (evs @ [ev]))))
          \<subseteq> insert (toString now) (set (map id_str (expenses (run evs))))"
      unfolding run_snoc ClickAdd step.simps by (rule addExpense_id_set)
    also have "\<dots> \<subseteq> insert (toString now) (toString ` set (clicks evs))"
      using snoc by (rule insert_mono)
    also have "\<dots> = toString ` set (clicks (evs @ [ev]))"
      by (simp add: clicks_snoc ClickAdd)
    finally show ?thesis .
  qed (use snoc in \<open>simp_all add: run_snoc clicks_snoc\<close>)
qed

text \<open>
  What the clock gives: when the readings of \<^verbatim>\<open>Date.now()\<close> at the clicks increase
  strictly, no two expenses have the same id.
\<close>

lemma ids_distinct_under_increasing_clock:
  assumes "sorted_wrt (<) (clicks evs)"
  shows "distinct (map id_str (expenses (run evs)))"
  using assms
proof (induction evs rule: rev_induct)
  case Nil
  show ?case by (simp add: run_Nil initialState_def)
next
  case (snoc ev evs)
  show ?case
  proof (cases ev)
    case (ClickAdd now today)
    have sorted: "sorted_wrt (<) (clicks evs)" and later: "\<forall>t \<in> set (clicks evs). t < now"
      using snoc.prems ClickAdd by (simp_all add: clicks_snoc sorted_wrt_append)
    have old: "distinct (map id_str (expenses (run evs)))" using snoc.IH sorted by simp
    have "toString now \<notin> toString ` set (clicks evs)"
      using later toString_inj by fastforce
    then have fresh: "toString now \<notin> set (map id_str (expenses (run evs)))"
      using run_ids_from_clicks[of evs] by blast
    from addExpense_ids[of now today "run evs"] show ?thesis
    proof
      assume "map id_str (expenses (snd (addExpense now today (run evs))))
              = map id_str (expenses (run evs))"
      then show ?thesis using old by (simp add: run_snoc ClickAdd)
    next
      assume "map id_str (expenses (snd (addExpense now today (run evs))))
              = map id_str (expenses (run evs)) @ [toString now]"
      then show ?thesis using old fresh by (simp add: run_snoc ClickAdd)
    qed
  qed (use snoc in \<open>simp_all add: run_snoc clicks_snoc\<close>)
qed

text \<open>
  C7. Every successful \<^verbatim>\<open>addExpense\<close> gives the new expense an id that no other expense
  of the list has. The id is the decimal numeral of \<^verbatim>\<open>Date.now()\<close>: two expenses added
  at the same clock reading, here 1700000000000, get the same id.
\<close>

theorem same_clock_reading_same_id:
  "map id_str (expenses (run (submit ''Lunch'' ''200'' ''Food'' 1700000000000
                  @ submit ''Phone'' ''4900'' ''Shopping'' 1700000000000)))
     = [''1700000000000'', ''1700000000000'']
   \<and> \<not> distinct (map id_str (expenses (run (submit ''Lunch'' ''200'' ''Food'' 1700000000000
                  @ submit ''Phone'' ''4900'' ''Shopping'' 1700000000000))))"
  by (simp add: run_def submit_accepted parseFloat_200 parseFloat_4900 positive_number_numeral
      toString_def digitsOf.simps digitChar_def initialState_def)

end
